theory Spec2Isabelle
  imports Main "HOL-Library.Char_ord" "HOL-Library.List_Lexorder"
begin

section \<open>Strings, integers and errors of the host language\<close>

text \<open>
  The views of \<^verbatim>\<open>recipe/views.py\<close> are Python. A Python \<^verbatim>\<open>str\<close> is a sequence of Unicode
  code points: the query parameter, which comes with the URL and may hold any of them, is
  a list of code points, each a natural number, and \<open>ascii\<close> writes one from a literal.
  A Python \<^verbatim>\<open>int\<close> is an unbounded \<^typ>\<open>int\<close>, and a raised exception is the left summand
  of a result. The emails, names and file names of the stored data are strings of 8-bit
  characters.
\<close>

datatype error = ValueError | Http404 | MultipleObjectsReturned | IntegrityError

type_synonym code_point = nat

type_synonym str = "code_point list"

definition ascii :: "string \<Rightarrow> str" where
  "ascii s = map of_char s"

subsection \<open>\<^verbatim>\<open>str.split(sep)\<close> with a one-character separator\<close>

text \<open>
  \<^verbatim>\<open>"".split(",") == [""]\<close>, \<^verbatim>\<open>"a,,b,".split(",") == ["a", "", "b", ""]\<close>: the result has
  one more element than the string has separators, and empty segments are kept.
\<close>

fun str_split :: "'a \<Rightarrow> 'a list \<Rightarrow> 'a list list" where
  "str_split sep [] = [[]]"
| "str_split sep (c # cs) =
     (if c = sep then [] # str_split sep cs
      else (case str_split sep cs of
              w # ws \<Rightarrow> (c # w) # ws
            | [] \<Rightarrow> [[c]]))"

text \<open>\<^verbatim>\<open>sep.join(parts)\<close>, the inverse used to state what a comma-separated string is.\<close>

fun str_join :: "'a \<Rightarrow> 'a list list \<Rightarrow> 'a list" where
  "str_join sep [] = []"
| "str_join sep [w] = w"
| "str_join sep (w # v # ws) = w @ sep # str_join sep (v # ws)"

subsection \<open>\<^verbatim>\<open>int(s)\<close> on a string, base ten\<close>

text \<open>
  \<^verbatim>\<open>int\<close> first rewrites the string: one that is all ASCII stays as it is; in any other a
  code point below 127 stays, a Unicode white space becomes a blank, a Unicode decimal
  digit becomes the ASCII digit of its value, and at the first other code point the
  string ends with a question mark. The tables are those of the interpreter's Unicode
  database (14.0.0): the decimal digits come in 66 blocks of ten, each from its zero on.
\<close>

definition decimal_digit_blocks :: "code_point list" where
  "decimal_digit_blocks =
     [0x30, 0x660, 0x6F0, 0x7C0, 0x966, 0x9E6, 0xA66, 0xAE6, 0xB66, 0xBE6, 0xC66, 0xCE6,
      0xD66, 0xDE6, 0xE50, 0xED0, 0xF20, 0x1040, 0x1090, 0x17E0, 0x1810, 0x1946, 0x19D0,
      0x1A80, 0x1A90, 0x1B50, 0x1BB0, 0x1C40, 0x1C50, 0xA620, 0xA8D0, 0xA900, 0xA9D0,
      0xA9F0, 0xAA50, 0xABF0, 0xFF10, 0x104A0, 0x10D30, 0x11066, 0x110F0, 0x11136,
      0x111D0, 0x112F0, 0x11450, 0x114D0, 0x11650, 0x116C0, 0x11730, 0x118E0, 0x11950,
      0x11C50, 0x11D50, 0x11DA0, 0x16A60, 0x16AC0, 0x16B50, 0x1D7CE, 0x1D7D8, 0x1D7E2,
      0x1D7EC, 0x1D7F6, 0x1E140, 0x1E2F0, 0x1E950, 0x1FBF0]"

definition unicode_decimal :: "code_point \<Rightarrow> nat option" where
  "unicode_decimal c =
     (case filter (\<lambda>b. b \<le> c \<and> c < b + 10) decimal_digit_blocks of
        [] \<Rightarrow> None
      | b # _ \<Rightarrow> Some (c - b))"

definition unicode_space :: "code_point \<Rightarrow> bool" where
  "unicode_space c \<longleftrightarrow>
     c \<in> set [0x09, 0x0A, 0x0B, 0x0C, 0x0D, 0x1C, 0x1D, 0x1E, 0x1F, 0x20, 0x85, 0xA0,
              0x1680, 0x2000, 0x2001, 0x2002, 0x2003, 0x2004, 0x2005, 0x2006, 0x2007,
              0x2008, 0x2009, 0x200A, 0x2028, 0x2029, 0x202F, 0x205F, 0x3000]"

fun transform_code_points :: "str \<Rightarrow> str" where
  "transform_code_points [] = []"
| "transform_code_points (c # cs) =
     (if c < 127 then c # transform_code_points cs
      else if unicode_space c then of_char CHR '' '' # transform_code_points cs
      else (case unicode_decimal c of
              Some d \<Rightarrow> (of_char CHR ''0'' + d) # transform_code_points cs
            | None \<Rightarrow> [of_char CHR ''?'']))"

definition decimal_and_space_to_ascii :: "str \<Rightarrow> str" where
  "decimal_and_space_to_ascii s =
     (if list_all (\<lambda>c. c < 128) s then s else transform_code_points s)"

text \<open>
  The rewritten string is then read: white space at both ends is skipped (\<^verbatim>\<open>\t \n \v \f \r\<close>
  and the blank), an optional sign is read, then decimal digits in which single
  underscores may stand between two digits; anything else raises \<^verbatim>\<open>ValueError\<close>. So does
  a numeral of more digits than the interpreter's limit on the digits of a converted
  string, which is 4300 unless the interpreter is told another.
\<close>

definition is_space :: "code_point \<Rightarrow> bool" where
  "is_space c \<longleftrightarrow> c \<in> set [0x09, 0x0A, 0x0B, 0x0C, 0x0D, 0x20]"

definition is_digit :: "code_point \<Rightarrow> bool" where
  "is_digit c \<longleftrightarrow> of_char CHR ''0'' \<le> c \<and> c \<le> of_char CHR ''9''"

definition digit_val :: "code_point \<Rightarrow> int" where
  "digit_val c = int c - 48"

definition strip :: "str \<Rightarrow> str" where
  "strip s = rev (dropWhile is_space (rev (dropWhile is_space s)))"

text \<open>The digits after the first one; \<open>acc\<close> is the value read so far.\<close>

fun parse_digits :: "int \<Rightarrow> str \<Rightarrow> error + int" where
  "parse_digits acc [] = Inr acc"
| "parse_digits acc (c # cs) =
     (if is_digit c then parse_digits (10 * acc + digit_val c) cs
      else if c = of_char CHR ''_'' then
        (case cs of
           [] \<Rightarrow> Inl ValueError
         | d # ds \<Rightarrow>
             if is_digit d then parse_digits (10 * acc + digit_val d) ds
             else Inl ValueError)
      else Inl ValueError)"

definition parse_unsigned :: "str \<Rightarrow> error + int" where
  "parse_unsigned s =
     (case s of
        [] \<Rightarrow> Inl ValueError
      | c # cs \<Rightarrow> if is_digit c then parse_digits (digit_val c) cs else Inl ValueError)"

definition int_max_str_digits :: nat where
  "int_max_str_digits = 4300"

definition count_digits :: "str \<Rightarrow> nat" where
  "count_digits s = length (filter is_digit s)"

definition parse_limited :: "str \<Rightarrow> error + int" where
  "parse_limited s =
     (case parse_unsigned s of
        Inl e \<Rightarrow> Inl e
      | Inr v \<Rightarrow> if int_max_str_digits < count_digits s then Inl ValueError else Inr v)"

definition long_from_string :: "str \<Rightarrow> error + int" where
  "long_from_string s =
     (case strip s of
        [] \<Rightarrow> Inl ValueError
      | c # cs \<Rightarrow>
          if c = of_char CHR ''-'' then map_sum id uminus (parse_limited cs)
          else if c = of_char CHR ''+'' then parse_limited cs
          else parse_limited (c # cs))"

definition py_int :: "str \<Rightarrow> error + int" where
  "py_int s = long_from_string (decimal_and_space_to_ascii s)"

subsection \<open>A list comprehension whose element expression may raise\<close>

text \<open>The comprehension evaluates left to right and the first exception leaves it.\<close>

fun map_raise :: "('a \<Rightarrow> error + 'b) \<Rightarrow> 'a list \<Rightarrow> error + 'b list" where
  "map_raise f [] = Inr []"
| "map_raise f (x # xs) =
     (case f x of
        Inl e \<Rightarrow> Inl e
      | Inr y \<Rightarrow> (case map_raise f xs of Inl e \<Rightarrow> Inl e | Inr ys \<Rightarrow> Inr (y # ys)))"

section \<open>The stored data and the request\<close>

text \<open>
  Modelled from the spec: \<^verbatim>\<open>core/models.py\<close> (the models \<^verbatim>\<open>User\<close>, \<^verbatim>\<open>Recipe\<close> and
  \<^verbatim>\<open>Ingredient\<close>, the user manager and \<^verbatim>\<open>recipe_image_file_path\<close>) is not among the
  sources. The records hold the fields the spec's data model lists; the price, a
  fixed-point decimal with two places, is counted in hundredths. A row refers to its owner
  by the owner's primary key, and the many-to-many relation of recipes and ingredients is
  its table of pairs (recipe id, ingredient id).
\<close>

record user =
  user_id :: int
  user_email :: string
  user_password :: string
  is_active :: bool
  is_staff :: bool
  is_superuser :: bool

record recipe =
  recipe_id :: int
  recipe_user :: int
  recipe_title :: string
  recipe_description :: string
  recipe_time_minutes :: int
  recipe_price :: int
  recipe_link :: string
  recipe_image :: "string option"

record ingredient =
  ingredient_id :: int
  ingredient_user :: int
  ingredient_name :: string

record database =
  users :: "user list"
  recipes :: "recipe list"
  ingredients :: "ingredient list"
  recipe_ingredients :: "(int \<times> int) list"

text \<open>
  A request that has passed token authentication: \<^verbatim>\<open>request.user\<close> (by primary key),
  \<^verbatim>\<open>request.query_params\<close> and \<^verbatim>\<open>request.data\<close>.
\<close>

record 'p request =
  req_user :: int
  query_params :: "string \<Rightarrow> str option"
  req_data :: 'p

section \<open>The views of \<^verbatim>\<open>recipe/views.py\<close>\<close>

subsection \<open>\<^verbatim>\<open>RecipeViewSet._params_to_ints\<close>\<close>

text \<open>
  \<^verbatim>\<open>def _params_to_ints(self, qs): return [int(str_id) for str_id in qs.split(",")]\<close>
\<close>

definition params_to_ints :: "str \<Rightarrow> error + int list" where
  "params_to_ints qs = map_raise py_int (str_split (of_char CHR '','') qs)"

subsection \<open>The queryset operations the views call\<close>

text \<open>
  A queryset is modelled by the list of rows its SQL query selects.
  \<^verbatim>\<open>filter(ingredients__id__in=ids)\<close> joins the recipes with the relation table and keeps
  the pairs whose ingredient id is among \<open>ids\<close>: a recipe comes once for each of its
  ingredients that matches. \<^verbatim>\<open>order_by("-f")\<close> sorts by descending \<open>f\<close>, and
  \<^verbatim>\<open>distinct()\<close> drops repeated rows.
\<close>

definition filter_ingredients_id_in :: "database \<Rightarrow> int list \<Rightarrow> recipe list \<Rightarrow> recipe list" where
  "filter_ingredients_id_in db ids qs =
     [r. r \<leftarrow> qs, l \<leftarrow> recipe_ingredients db, fst l = recipe_id r \<and> snd l \<in> set ids]"

definition order_by_desc :: "('a \<Rightarrow> 'k::linorder) \<Rightarrow> 'a list \<Rightarrow> 'a list" where
  "order_by_desc key qs = rev (sort_key key (rev qs))"

definition qs_distinct :: "'a list \<Rightarrow> 'a list" where
  "qs_distinct qs = remdups qs"

subsection \<open>\<^verbatim>\<open>RecipeViewSet.get_queryset\<close>\<close>

text \<open>
  \<^verbatim>\<open>
  ingredients = self.request.query_params.get("ingredients")
  queryset = self.queryset
  if ingredients:
      ingredient_ids = self._params_to_ints(ingredients)
      queryset = queryset.filter(ingredients__id__in=ingredient_ids)
  return queryset.filter(user=self.request.user).order_by("-id").distinct()
  \<close>
  A missing parameter (\<^verbatim>\<open>None\<close>) and the empty string are both false.
\<close>

definition recipe_get_queryset :: "database \<Rightarrow> 'p request \<Rightarrow> error + recipe list" where
  "recipe_get_queryset db request =
     (let ingredients = query_params request ''ingredients'';
          queryset = recipes db;
          filtered =
            (case ingredients of
               None \<Rightarrow> Inr queryset
             | Some qs \<Rightarrow>
                 if qs = [] then Inr queryset
                 else (case params_to_ints qs of
                         Inl e \<Rightarrow> Inl e
                       | Inr ingredient_ids \<Rightarrow>
                           Inr (filter_ingredients_id_in db ingredient_ids queryset)))
      in case filtered of
           Inl e \<Rightarrow> Inl e
         | Inr queryset \<Rightarrow>
             Inr (qs_distinct (order_by_desc recipe_id
                    (filter (\<lambda>r. recipe_user r = req_user request) queryset))))"

subsection \<open>\<^verbatim>\<open>IngredientViewSet.get_queryset\<close>\<close>

text \<open>\<^verbatim>\<open>return self.queryset.filter(user=self.request.user).order_by("-name")\<close>\<close>

definition ingredient_get_queryset :: "database \<Rightarrow> 'p request \<Rightarrow> ingredient list" where
  "ingredient_get_queryset db request =
     order_by_desc ingredient_name
       (filter (\<lambda>i. ingredient_user i = req_user request) (ingredients db))"

subsection \<open>\<^verbatim>\<open>RecipeViewSet.upload_image\<close>\<close>

text \<open>
  \<^verbatim>\<open>self.get_object()\<close> is the framework's lookup of the row with the primary key of the URL,
  an integer here, in \<^verbatim>\<open>get_queryset()\<close>: it raises \<^verbatim>\<open>Http404\<close> when the queryset has no
  such row, and \<^verbatim>\<open>MultipleObjectsReturned\<close> when it has more than one.
\<close>

definition get_object :: "database \<Rightarrow> 'p request \<Rightarrow> int \<Rightarrow> error + recipe" where
  "get_object db request pk =
     (case recipe_get_queryset db request of
        Inl e \<Rightarrow> Inl e
      | Inr queryset \<Rightarrow>
          (case filter (\<lambda>r. recipe_id r = pk) queryset of
             [] \<Rightarrow> Inl Http404
           | [r] \<Rightarrow> Inr r
           | _ \<Rightarrow> Inl MultipleObjectsReturned))"

text \<open>
  The image serializer (\<^verbatim>\<open>recipe/serializers.py\<close>) is not among the sources and is a
  parameter of the action: \<open>run_validation\<close> is what \<^verbatim>\<open>is_valid()\<close> computes from the
  submitted data (the errors, or the validated data), \<open>save_instance\<close> is \<^verbatim>\<open>save()\<close>,
  which stores the validated data on the recipe, and \<open>to_representation\<close> is
  \<^verbatim>\<open>serializer.data\<close> of the saved recipe.
\<close>

record ('p, 'v, 'e, 'd) serializer =
  run_validation :: "'p \<Rightarrow> 'e + 'v"
  save_instance :: "database \<Rightarrow> recipe \<Rightarrow> 'v \<Rightarrow> database \<times> recipe"
  to_representation :: "recipe \<Rightarrow> 'd"

datatype ('e, 'd) response = Response (response_data: "'e + 'd") (status_code: nat)

definition HTTP_200_OK :: nat where
  "HTTP_200_OK = 200"

definition HTTP_400_BAD_REQUEST :: nat where
  "HTTP_400_BAD_REQUEST = 400"

text \<open>
  \<^verbatim>\<open>
  recipe = self.get_object()
  serializer = self.get_serializer(recipe, data=request.data)
  if serializer.is_valid():
      serializer.save()
      return Response(serializer.data, status=status.HTTP_200_OK)
  return Response(serializer.errors, status=status.HTTP_400_BAD_REQUEST)
  \<close>
  The result is the store after the action and the response; an exception leaves the
  store as it was.
\<close>

definition upload_image ::
  "('p, 'v, 'e, 'd) serializer \<Rightarrow> database \<Rightarrow> 'p request \<Rightarrow> int
     \<Rightarrow> error + (database \<times> ('e, 'd) response)" where
  "upload_image ser db request pk =
     (case get_object db request pk of
        Inl e \<Rightarrow> Inl e
      | Inr recipe \<Rightarrow>
          (case run_validation ser (req_data request) of
             Inr validated \<Rightarrow>
               (let (db', recipe') = save_instance ser db recipe validated
                in Inr (db', Response (Inr (to_representation ser recipe')) HTTP_200_OK))
           | Inl errors \<Rightarrow> Inr (db, Response (Inl errors) HTTP_400_BAD_REQUEST)))"

section \<open>The parts of the repository the sources do not hold\<close>

subsection \<open>The user manager\<close>

text \<open>
  Modelled from the spec: \<^verbatim>\<open>core/models.py\<close> is not among the sources. The spec gives the
  user a unique email, normalized by lower-casing the domain part, and a hashed password,
  and has the manager reject an empty email with a validation error; the tests call
  \<^verbatim>\<open>create_user(email, password)\<close> and expect \<^verbatim>\<open>ValueError\<close> for the empty email. The
  domain part is what follows the last \<^verbatim>\<open>@\<close>; an email without \<^verbatim>\<open>@\<close> is kept as it is.
  The password hasher is a parameter.
\<close>

text \<open>
  \<^verbatim>\<open>str.lower()\<close> on one character: the capital letters of ASCII and of Latin-1 have their
  small letters 32 code points further.
\<close>

definition to_lower :: "char \<Rightarrow> char" where
  "to_lower c =
     (let n = of_char c :: nat
      in if (65 \<le> n \<and> n \<le> 90) \<or> (192 \<le> n \<and> n \<le> 222 \<and> n \<noteq> 215)
         then char_of (n + 32) else c)"

text \<open>
  \<^verbatim>\<open>s.rsplit(sep, 1)\<close> when the separator occurs: what is before and what is after its last
  occurrence.
\<close>

definition rsplit_last :: "char \<Rightarrow> string \<Rightarrow> (string \<times> string) option" where
  "rsplit_last sep s =
     (if sep \<in> set s
      then Some (rev (tl (dropWhile (\<lambda>c. c \<noteq> sep) (rev s))),
                 rev (takeWhile (\<lambda>c. c \<noteq> sep) (rev s)))
      else None)"

text \<open>Modelled from the spec: the normalization of the email, lower-casing the domain part.\<close>

definition normalize_email :: "string \<Rightarrow> string" where
  "normalize_email email =
     (case rsplit_last CHR ''@'' email of
        None \<Rightarrow> email
      | Some (email_name, domain_part) \<Rightarrow> email_name @ CHR ''@'' # map to_lower domain_part)"

text \<open>The primary key that the database gives a new row: above all keys in use.\<close>

definition next_id :: "int list \<Rightarrow> int" where
  "next_id ids = fold max ids 0 + 1"

text \<open>
  Modelled from the spec: \<^verbatim>\<open>create_user\<close> of the user manager. The empty email is rejected
  with \<^verbatim>\<open>ValueError\<close>, an email in use with the database's integrity error; the new user is
  active and neither staff nor superuser. The result is the user and the users stored.
\<close>

definition create_user ::
  "(string \<Rightarrow> string) \<Rightarrow> user list \<Rightarrow> string \<Rightarrow> string \<Rightarrow> error + (user \<times> user list)" where
  "create_user make_password us email password =
     (if email = [] then Inl ValueError
      else
        (let u = \<lparr>user_id = next_id (map user_id us),
                  user_email = normalize_email email,
                  user_password = make_password password,
                  is_active = True, is_staff = False, is_superuser = False\<rparr>
         in if user_email u \<in> set (map user_email us) then Inl IntegrityError
            else Inr (u, us @ [u])))"

subsection \<open>The path of an uploaded image\<close>

text \<open>
  Modelled from the spec: \<^verbatim>\<open>recipe_image_file_path\<close> of \<^verbatim>\<open>core/models.py\<close> is not among
  the sources. The spec gives it any file name and has it return
  \<^verbatim>\<open>uploads/recipe/<uuid>.<ext>\<close>, the extension being that of the file name; the test
  expects \<^verbatim>\<open>uploads/recipe/test-uuid.jpg\<close> for \<^verbatim>\<open>example.jpg\<close> when the generator returns
  \<^verbatim>\<open>test-uuid\<close>. The extension is read as the host language's \<^verbatim>\<open>os.path.splitext\<close> reads
  it: from the last dot of the last path component on, and nothing when that component
  has no dot or only dots before its last one. The value of the UUID generator is the
  first argument; the model instance, \<^verbatim>\<open>None\<close> in the test, is not used.
\<close>

text \<open>The last component of a path, and the extension of a file name.\<close>

definition basename :: "string \<Rightarrow> string" where
  "basename p = rev (takeWhile (\<lambda>c. c \<noteq> CHR ''/'') (rev p))"

definition file_extension :: "string \<Rightarrow> string" where
  "file_extension filename =
     (case rsplit_last CHR ''.'' (basename filename) of
        None \<Rightarrow> []
      | Some (root, ext) \<Rightarrow>
          if list_all (\<lambda>c. c = CHR ''.'') root then [] else CHR ''.'' # ext)"

text \<open>Modelled from the spec: \<^verbatim>\<open>recipe_image_file_path(instance, filename)\<close>.\<close>

definition recipe_image_file_path :: "string \<Rightarrow> 'i \<Rightarrow> string \<Rightarrow> string" where
  "recipe_image_file_path uuid4 instance filename =
     ''uploads/recipe/'' @ uuid4 @ file_extension filename"

subsection \<open>The partial update of a recipe's ingredients\<close>

text \<open>
  Modelled from the spec: the recipe serializer of \<^verbatim>\<open>recipe/serializers.py\<close> is not among
  the sources. The spec has a partial update of the ingredients replace the whole set,
  also by the empty one, and has an ingredient created when a recipe names one that its
  owner does not have yet; the tests send \<^verbatim>\<open>{"ingredients": [{"name": ...}, ...]}\<close>. A
  payload without the key leaves the ingredients as they are.
\<close>

text \<open>
  Modelled from the spec: the ingredient of the requesting user with the given name, made
  with a new primary key when the user has none of that name.
\<close>

definition get_or_create_ingredient :: "database \<Rightarrow> int \<Rightarrow> string \<Rightarrow> database \<times> int" where
  "get_or_create_ingredient db uid nm =
     (case filter (\<lambda>i. ingredient_user i = uid \<and> ingredient_name i = nm) (ingredients db) of
        i # _ \<Rightarrow> (db, ingredient_id i)
      | [] \<Rightarrow>
          (let new = next_id (map ingredient_id (ingredients db))
           in (db\<lparr>ingredients := ingredients db @
                     [\<lparr>ingredient_id = new, ingredient_user = uid, ingredient_name = nm\<rparr>]\<rparr>,
               new)))"

text \<open>
  Modelled from the spec: attaching an ingredient to a recipe, which adds their pair to
  the relation unless it is there, and detaching all ingredients of a recipe.
\<close>

definition add_ingredient :: "database \<Rightarrow> int \<Rightarrow> int \<Rightarrow> database" where
  "add_ingredient db rid iid =
     (if (rid, iid) \<in> set (recipe_ingredients db) then db
      else db\<lparr>recipe_ingredients := recipe_ingredients db @ [(rid, iid)]\<rparr>)"

definition clear_ingredients :: "database \<Rightarrow> int \<Rightarrow> database" where
  "clear_ingredients db rid =
     db\<lparr>recipe_ingredients := filter (\<lambda>l. fst l \<noteq> rid) (recipe_ingredients db)\<rparr>"

text \<open>
  Modelled from the spec: the update of the ingredients by a payload. With the key
  \<^verbatim>\<open>ingredients\<close> the recipe's ingredients are detached and the named ones attached in the
  order of the payload, each got or created for the requesting user.
\<close>

fun attach_ingredients :: "database \<Rightarrow> int \<Rightarrow> int \<Rightarrow> string list \<Rightarrow> database" where
  "attach_ingredients db uid rid [] = db"
| "attach_ingredients db uid rid (nm # nms) =
     (let (db', iid) = get_or_create_ingredient db uid nm
      in attach_ingredients (add_ingredient db' rid iid) uid rid nms)"

definition update_ingredients :: "database \<Rightarrow> int \<Rightarrow> int \<Rightarrow> string list option \<Rightarrow> database" where
  "update_ingredients db uid rid payload =
     (case payload of
        None \<Rightarrow> db
      | Some names \<Rightarrow> attach_ingredients (clear_ingredients db rid) uid rid names)"

section \<open>Notions of the specification\<close>

text \<open>
  A decimal integer numeral is a non-empty string of the digits 0 to 9, with or without a
  minus sign before it; its integer is the positional value of its digits, each digit
  worth what the table says.
\<close>

definition decimal_digit :: "code_point \<Rightarrow> bool" where
  "decimal_digit c \<longleftrightarrow> c \<in> set (ascii ''0123456789'')"

definition decimal_digit_value :: "code_point \<Rightarrow> int" where
  "decimal_digit_value c =
     (case map_of (zip (ascii ''0123456789'') [0, 1, 2, 3, 4, 5, 6, 7, 8, 9]) c of
        Some v \<Rightarrow> v
      | None \<Rightarrow> 0)"

definition decimal_digits :: "str \<Rightarrow> bool" where
  "decimal_digits s \<longleftrightarrow> s \<noteq> [] \<and> list_all decimal_digit s"

definition numeral_digits :: "str \<Rightarrow> str" where
  "numeral_digits s =
     (case s of
        [] \<Rightarrow> []
      | c # cs \<Rightarrow> if c = of_char CHR ''-'' then cs else s)"

definition decimal_numeral :: "str \<Rightarrow> bool" where
  "decimal_numeral s \<longleftrightarrow> decimal_digits (numeral_digits s)"

definition digits_value :: "str \<Rightarrow> int" where
  "digits_value s = horner_sum decimal_digit_value 10 (rev s)"

definition numeral_value :: "str \<Rightarrow> int" where
  "numeral_value s =
     (case s of
        [] \<Rightarrow> 0
      | c # cs \<Rightarrow> if c = of_char CHR ''-'' then - digits_value cs else digits_value s)"

text \<open>
  What \<^verbatim>\<open>int\<close> reads as an integer, once the string is rewritten: groups of digits joined
  by single underscores, after an optional sign, between any white space, with no more
  digits than the limit.
\<close>

definition digit_groups :: "str \<Rightarrow> bool" where
  "digit_groups b \<longleftrightarrow> list_all decimal_digits (str_split (of_char CHR ''_'') b)"

definition signed_digit_groups :: "str \<Rightarrow> bool" where
  "signed_digit_groups t \<longleftrightarrow>
     digit_groups t \<or>
     (\<exists>b. (t = of_char CHR ''+'' # b \<or> t = of_char CHR ''-'' # b) \<and> digit_groups b)"

definition int_literal :: "str \<Rightarrow> bool" where
  "int_literal s \<longleftrightarrow>
     (\<exists>l t r. s = l @ t @ r \<and> list_all is_space l \<and> list_all is_space r
        \<and> signed_digit_groups t)"

definition int_readable :: "str \<Rightarrow> bool" where
  "int_readable s \<longleftrightarrow>
     int_literal (decimal_and_space_to_ascii s) \<and>
     length (filter decimal_digit (decimal_and_space_to_ascii s)) \<le> int_max_str_digits"

text \<open>The ingredients a recipe has: the rows the relation table links to it.\<close>

definition recipe_has :: "database \<Rightarrow> int \<Rightarrow> ingredient set" where
  "recipe_has db rid =
     {i \<in> set (ingredients db). (rid, ingredient_id i) \<in> set (recipe_ingredients db)}"

text \<open>One round of the loop that attaches the named ingredients.\<close>

definition attach_step :: "database \<Rightarrow> int \<Rightarrow> int \<Rightarrow> string \<Rightarrow> database" where
  "attach_step db uid rid nm =
     (let (db', iid) = get_or_create_ingredient db uid nm in add_ingredient db' rid iid)"

section \<open>Sample data of the test suite\<close>

text \<open>
  The rows of \<^verbatim>\<open>test_filter_by_ingredients\<close> and \<^verbatim>\<open>test_recipe_list_limited_to_user\<close>:
  the recipes Pasta, Curry and Soup of the requesting user 1 and a recipe of another user
  2, the ingredients Tomato and Ginger. \<^verbatim>\<open>create_recipe\<close> is the helper of the tests with
  its default field values. Pasta has both ingredients here, Curry has Ginger, Soup none.
\<close>

definition create_recipe :: "int \<Rightarrow> int \<Rightarrow> string \<Rightarrow> recipe" where
  "create_recipe rid uid title =
     \<lparr>recipe_id = rid, recipe_user = uid, recipe_title = title,
      recipe_description = ''Sample description'', recipe_time_minutes = 22,
      recipe_price = 523, recipe_link = ''http://example.com/recipe.pdf'',
      recipe_image = None\<rparr>"

definition sample_db :: database where
  "sample_db =
     \<lparr>users = [],
      recipes = [create_recipe 1 1 ''Pasta'', create_recipe 2 1 ''Curry'',
                 create_recipe 3 1 ''Soup'', create_recipe 4 2 ''Sample recipe''],
      ingredients =
        [\<lparr>ingredient_id = 1, ingredient_user = 1, ingredient_name = ''Tomato''\<rparr>,
         \<lparr>ingredient_id = 2, ingredient_user = 1, ingredient_name = ''Ginger''\<rparr>,
         \<lparr>ingredient_id = 3, ingredient_user = 2, ingredient_name = ''Salt''\<rparr>],
      recipe_ingredients = [(1, 1), (1, 2), (2, 2), (4, 2), (4, 3)]\<rparr>"

text \<open>
  A request of user 1 with the given \<^verbatim>\<open>ingredients\<close> parameter and data. The data of the
  upload tests is an image file (by its name) or the text \<^verbatim>\<open>notimage\<close>; the sample
  serializer accepts the file, stores it under the path of the mocked UUID and shows the
  recipe's id and image.
\<close>

datatype upload = ImageFile string | NotImage string

definition sample_request :: "str option \<Rightarrow> upload \<Rightarrow> upload request" where
  "sample_request param data =
     \<lparr>req_user = 1,
      query_params = (\<lambda>k. if k = ''ingredients'' then param else None),
      req_data = data\<rparr>"

definition sample_serializer :: "(upload, string, string, int \<times> string option) serializer" where
  "sample_serializer =
     \<lparr>run_validation =
        (\<lambda>data. case data of
                  ImageFile filename \<Rightarrow> Inr filename
                | NotImage _ \<Rightarrow> Inl ''Upload a valid image.''),
      save_instance =
        (\<lambda>db recipe filename.
           let recipe' =
                 recipe\<lparr>recipe_image :=
                          Some (recipe_image_file_path ''test-uuid'' recipe filename)\<rparr>
           in (db\<lparr>recipes :=
                     map (\<lambda>r. if recipe_id r = recipe_id recipe then recipe' else r)
                       (recipes db)\<rparr>,
               recipe')),
      to_representation = (\<lambda>r. (recipe_id r, recipe_image r))\<rparr>"

definition sample_user :: user where
  "sample_user =
     \<lparr>user_id = 1, user_email = ''Test2@example.com'', user_password = ''sample123'',
      is_active = True, is_staff = False, is_superuser = False\<rparr>"


section \<open>Splitting and joining\<close>

lemma str_split_nonempty: "str_split sep s \<noteq> []"
  by (induction s) (auto split: list.splits)

lemma str_split_no_sep: "sep \<notin> set w \<Longrightarrow> str_split sep w = [w]"
  by (induction w) auto

lemma str_split_append:
  "sep \<notin> set w \<Longrightarrow> str_split sep (w @ sep # s) = w # str_split sep s"
  by (induction w) auto

lemma str_split_join:
  "segs \<noteq> [] \<Longrightarrow> \<forall>w\<in>set segs. sep \<notin> set w \<Longrightarrow> str_split sep (str_join sep segs) = segs"
  by (induction sep segs rule: str_join.induct) (auto simp: str_split_no_sep str_split_append)

lemma map_raise_all:
  "\<forall>x\<in>set xs. f x = Inr (g x) \<Longrightarrow> map_raise f xs = Inr (map g xs)"
  by (induction xs) auto


section \<open>Digits\<close>

lemma is_digit_range: "is_digit c \<longleftrightarrow> 48 \<le> c \<and> c \<le> 57"
  by (simp add: is_digit_def)

lemma decimal_digit_iff: "decimal_digit c \<longleftrightarrow> is_digit c"
  by (simp add: decimal_digit_def ascii_def is_digit_range) arith

lemma digit_val_eq: "is_digit c \<Longrightarrow> digit_val c = decimal_digit_value c"
proof -
  assume "is_digit c"
  then have "decimal_digit c" by (simp add: decimal_digit_iff)
  then show ?thesis
    by (auto simp: decimal_digit_def ascii_def digit_val_def decimal_digit_value_def)
qed

lemma decimal_digits_alt: "decimal_digits s \<longleftrightarrow> s \<noteq> [] \<and> list_all is_digit s"
  by (simp add: decimal_digits_def list_all_iff decimal_digit_iff)

lemma is_digit_not_space: "is_digit c \<Longrightarrow> \<not> is_space c"
  by (auto simp: is_digit_range is_space_def)

lemma not_digit:
  "\<not> is_digit (of_char CHR ''_'')" "\<not> is_digit (of_char CHR ''+'')"
  "\<not> is_digit (of_char CHR ''-'')" "\<not> is_digit (of_char CHR '','')"
  by (simp_all add: is_digit_range)

lemma count_digits_all: "list_all is_digit s \<Longrightarrow> count_digits s = length s"
  by (simp add: count_digits_def list_all_iff)

lemma count_digits_spaces: "list_all is_space s \<Longrightarrow> count_digits s = 0"
  by (auto simp: count_digits_def list_all_iff filter_empty_conv dest: is_digit_not_space)

lemma count_digits_append: "count_digits (s @ t) = count_digits s + count_digits t"
  by (simp add: count_digits_def)

lemma count_digits_sign:
  "count_digits (of_char CHR ''+'' # s) = count_digits s"
  "count_digits (of_char CHR ''-'' # s) = count_digits s"
  using not_digit by (simp_all add: count_digits_def)

lemma count_digits_decimal: "length (filter decimal_digit s) = count_digits s"
  by (simp add: count_digits_def decimal_digit_iff [abs_def])

section \<open>Reading plain numerals\<close>

lemma strip_id:
  "s \<noteq> [] \<Longrightarrow> \<not> is_space (hd s) \<Longrightarrow> \<not> is_space (last s) \<Longrightarrow> strip s = s"
proof -
  assume a: "s \<noteq> []" "\<not> is_space (hd s)" "\<not> is_space (last s)"
  have "dropWhile is_space s = s"
    using a by (simp add: dropWhile_eq_self_iff)
  moreover have "dropWhile is_space (rev s) = rev s"
    using a by (simp add: dropWhile_eq_self_iff hd_rev)
  ultimately show ?thesis by (simp add: strip_def)
qed


lemma parse_digits_all:
  "list_all is_digit ds \<Longrightarrow>
   parse_digits acc ds = Inr (acc * 10 ^ length ds + digits_value ds)"
  by (induction ds arbitrary: acc)
    (auto simp: digits_value_def horner_sum_append digit_val_eq algebra_simps)

lemma parse_unsigned_digits:
  "decimal_digits ds \<Longrightarrow> parse_unsigned ds = Inr (digits_value ds)"
  by (cases ds)
    (auto simp: decimal_digits_alt parse_unsigned_def parse_digits_all digits_value_def
      horner_sum_append digit_val_eq)

lemma parse_limited_digits:
  "decimal_digits ds \<Longrightarrow> length ds \<le> int_max_str_digits \<Longrightarrow>
   parse_limited ds = Inr (digits_value ds)"
  by (simp add: parse_limited_def parse_unsigned_digits)
    (simp add: decimal_digits_alt count_digits_all)

lemma parse_limited_too_long:
  "decimal_digits ds \<Longrightarrow> int_max_str_digits < length ds \<Longrightarrow>
   parse_limited ds = Inl ValueError"
  by (simp add: parse_limited_def parse_unsigned_digits)
    (simp add: decimal_digits_alt count_digits_all)

lemma numeral_ascii: "decimal_numeral s \<Longrightarrow> list_all (\<lambda>c. c < 127) s"
proof -
  assume n: "decimal_numeral s"
  have d: "list_all (\<lambda>c. c < 127) ds" if "decimal_digits ds" for ds
    using that by (auto simp: decimal_digits_alt list_all_iff is_digit_range)
  show ?thesis
  proof (cases s)
    case Nil
    then show ?thesis by simp
  next
    case (Cons c cs)
    then show ?thesis
      using n d [of cs] d [of s]
      by (auto simp: decimal_numeral_def numeral_digits_def split: if_splits)
  qed
qed

lemma ascii_unchanged:
  "list_all (\<lambda>c. c < 127) s \<Longrightarrow> decimal_and_space_to_ascii s = s"
proof -
  assume a: "list_all (\<lambda>c. c < 127) s"
  then have "transform_code_points s = s"
    by (induction s) auto
  then show ?thesis by (simp add: decimal_and_space_to_ascii_def)
qed

lemma numeral_strip: "decimal_numeral s \<Longrightarrow> strip s = s"
proof -
  assume n: "decimal_numeral s"
  let ?ds = "numeral_digits s"
  have d: "?ds \<noteq> []" "is_digit (hd ?ds)" "is_digit (last ?ds)"
    using n by (auto simp: decimal_numeral_def decimal_digits_alt list_all_iff)
  have "s \<noteq> []" using d(1) by (auto simp: numeral_digits_def)
  moreover have "\<not> is_space (hd s)"
    using d(1,2) is_digit_not_space
    by (cases s) (auto simp: numeral_digits_def is_space_def split: if_splits)
  moreover have "last s = last ?ds"
    using d(1) by (cases s) (auto simp: numeral_digits_def)
  then have "\<not> is_space (last s)"
    using d(3) is_digit_not_space by simp
  ultimately show ?thesis by (rule strip_id)
qed

lemma long_from_string_numeral:
  assumes num: "decimal_numeral s"
  shows "long_from_string s =
    (if length (numeral_digits s) \<le> int_max_str_digits then Inr (numeral_value s)
     else Inl ValueError)"
proof (cases s)
  case Nil
  then show ?thesis using num by (simp add: decimal_numeral_def numeral_digits_def decimal_digits_def)
next
  case (Cons c cs)
  have st: "strip s = s" using num by (rule numeral_strip)
  show ?thesis
  proof (cases "c = of_char CHR ''-''")
    case True
    then have ds: "numeral_digits s = cs" using Cons by (simp add: numeral_digits_def)
    then have d: "decimal_digits cs" using num by (simp add: decimal_numeral_def)
    show ?thesis
      using st Cons True d ds parse_limited_digits [of cs] parse_limited_too_long [of cs]
      by (auto simp: long_from_string_def numeral_value_def)
  next
    case False
    then have ds: "numeral_digits s = s" using Cons by (simp add: numeral_digits_def)
    then have d: "decimal_digits s" using num by (simp add: decimal_numeral_def)
    then have "is_digit c" using Cons by (simp add: decimal_digits_alt)
    then have "c \<noteq> of_char CHR ''+''" using not_digit(2) by blast
    then show ?thesis
      using st Cons False d ds parse_limited_digits [of s] parse_limited_too_long [of s]
      by (auto simp: long_from_string_def numeral_value_def)
  qed
qed

lemma py_int_numeral:
  "decimal_numeral s \<Longrightarrow>
   py_int s = (if length (numeral_digits s) \<le> int_max_str_digits then Inr (numeral_value s)
               else Inl ValueError)"
  by (simp only: py_int_def ascii_unchanged [OF numeral_ascii] long_from_string_numeral)

lemma numeral_no_comma: "decimal_numeral s \<Longrightarrow> of_char CHR '','' \<notin> set s"
proof
  assume n: "decimal_numeral s" and c: "of_char CHR '','' \<in> set s"
  have "\<forall>x\<in>set (numeral_digits s). is_digit x"
    using n by (simp add: decimal_numeral_def decimal_digits_alt list_all_iff)
  moreover have "set s \<subseteq> insert (of_char CHR ''-'') (set (numeral_digits s))"
    by (cases s) (auto simp: numeral_digits_def)
  ultimately have "is_digit (of_char CHR '','' :: nat)"
    using c by auto
  then show False by (simp add: is_digit_range)
qed

section \<open>What \<^verbatim>\<open>int\<close> accepts\<close>

lemma parse_digits_error: "parse_digits acc cs = Inl e \<Longrightarrow> e = ValueError"
  by (induction acc cs rule: parse_digits.induct) (auto split: if_splits list.splits)

lemma map_raise_Inl:
  "(\<exists>e. map_raise f xs = Inl e) \<longleftrightarrow> (\<exists>x\<in>set xs. \<exists>e. f x = Inl e)"
  by (induction xs) (auto split: sum.splits)

lemma map_raise_error: "map_raise f xs = Inl e \<Longrightarrow> \<exists>x\<in>set xs. f x = Inl e"
  by (induction xs) (auto split: sum.splits)

lemma split_hd_digit:
  "is_digit c \<Longrightarrow> \<exists>w ws. str_split (of_char CHR ''_'') (c # cs) = (c # w) # ws"
  using str_split_nonempty [of "(of_char CHR ''_'')" cs]
  by (cases "str_split (of_char CHR ''_'') cs") (use not_digit(1) in auto)

lemma parse_digits_groups:
  "is_digit d \<Longrightarrow>
   (\<exists>v. parse_digits acc cs = Inr v) \<longleftrightarrow> digit_groups (d # cs)"
proof (induction acc cs arbitrary: d rule: parse_digits.induct)
  case (1 acc)
  then show ?case using not_digit(1) by (auto simp: digit_groups_def decimal_digits_alt)
next
  case (2 acc c cs)
  have dn: "d \<noteq> (of_char CHR ''_'')" using "2.prems" not_digit(1) by blast
  show ?case
  proof (cases "is_digit c")
    case True
    then have cn: "c \<noteq> (of_char CHR ''_'')" using not_digit(1) by blast
    obtain w ws where sp: "str_split (of_char CHR ''_'') (c # cs) = (c # w) # ws"
      using split_hd_digit [OF True] by blast
    have "(\<exists>v. parse_digits acc (c # cs) = Inr v) \<longleftrightarrow> digit_groups (c # cs)"
      using "2.IH"(1) [OF True True] True by simp
    also have "\<dots> \<longleftrightarrow> digit_groups (d # c # cs)"
      using sp dn "2.prems" by (simp add: digit_groups_def decimal_digits_alt)
    finally show ?thesis .
  next
    case False
    show ?thesis
    proof (cases "c = (of_char CHR ''_'')")
      case und: True
      show ?thesis
      proof (cases cs)
        case Nil
        then show ?thesis using und False dn
          by (simp add: digit_groups_def decimal_digits_alt)
      next
        case (Cons e es)
        show ?thesis
        proof (cases "is_digit e")
          case True
          have "(\<exists>v. parse_digits acc (c # cs) = Inr v) \<longleftrightarrow> digit_groups (e # es)"
            using "2.IH"(2) [OF False und Cons True True] und False Cons True by simp
          also have "\<dots> \<longleftrightarrow> digit_groups (d # c # cs)"
            using und dn Cons "2.prems" by (simp add: digit_groups_def decimal_digits_alt)
          finally show ?thesis .
        next
          case ne: False
          have "\<not> list_all decimal_digits (str_split (of_char CHR ''_'') (e # es))"
            using ne str_split_nonempty [of "(of_char CHR ''_'')" es]
            by (cases "str_split (of_char CHR ''_'') es") (auto simp: decimal_digits_alt)
          then show ?thesis
            using und dn Cons ne False by (simp add: digit_groups_def)
        qed
      qed
    next
      case nu: False
      have "\<not> list_all decimal_digits (str_split (of_char CHR ''_'') (d # c # cs))"
        using nu dn False str_split_nonempty [of "(of_char CHR ''_'')" cs]
        by (cases "str_split (of_char CHR ''_'') cs") (auto simp: decimal_digits_alt)
      then show ?thesis using nu False by (simp add: digit_groups_def)
    qed
  qed
qed

lemma digit_groups_hd: "digit_groups b \<Longrightarrow> b \<noteq> [] \<and> is_digit (hd b)"
proof (cases b)
  case Nil
  assume "digit_groups b"
  then show ?thesis using Nil by (simp add: digit_groups_def decimal_digits_alt)
next
  case (Cons c cs)
  assume "digit_groups b"
  then show ?thesis using Cons str_split_nonempty [of "(of_char CHR ''_'')" cs]
    by (cases "str_split (of_char CHR ''_'') cs") (auto simp: digit_groups_def decimal_digits_alt split: if_splits)
qed

lemma parse_unsigned_groups:
  "(\<exists>v. parse_unsigned b = Inr v) \<longleftrightarrow> digit_groups b"
proof (cases b)
  case Nil
  then show ?thesis by (simp add: parse_unsigned_def digit_groups_def decimal_digits_alt)
next
  case (Cons c cs)
  show ?thesis
  proof (cases "is_digit c")
    case True
    then show ?thesis using Cons parse_digits_groups [OF True] by (simp add: parse_unsigned_def)
  next
    case False
    then show ?thesis using Cons digit_groups_hd [of b] by (auto simp: parse_unsigned_def)
  qed
qed


lemma decimal_digits_all: "decimal_digits w \<Longrightarrow> list_all is_digit w"
  by (simp add: decimal_digits_alt)

lemma split_last_digit:
  "str_split (of_char CHR ''_'') b = w # ws \<Longrightarrow> list_all is_digit w \<Longrightarrow> list_all decimal_digits ws
   \<Longrightarrow> b \<noteq> [] \<Longrightarrow> is_digit (last b)"
proof (induction b arbitrary: w ws)
  case Nil
  then show ?case by simp
next
  case (Cons c cs)
  show ?case
  proof (cases "cs = []")
    case True
    then show ?thesis using Cons.prems
      by (auto simp: decimal_digits_alt split: if_splits)
  next
    case False
    obtain w' ws' where sp: "str_split (of_char CHR ''_'') cs = w' # ws'"
      using str_split_nonempty [of "(of_char CHR ''_'')" cs] by (cases "str_split (of_char CHR ''_'') cs") auto
    have "list_all is_digit w' \<and> list_all decimal_digits ws'"
    proof (cases "c = (of_char CHR ''_'')")
      case True
      then have "ws = w' # ws'" using Cons.prems(1) sp by simp
      then show ?thesis using Cons.prems(3) by (simp add: decimal_digits_all)
    next
      case False
      then have "w = c # w'" "ws = ws'" using Cons.prems(1) sp by simp_all
      then show ?thesis using Cons.prems(2,3) by simp
    qed
    then have "is_digit (last cs)"
      using Cons.IH [OF sp] False by simp
    then show ?thesis using False by simp
  qed
qed

lemma digit_groups_last: "digit_groups b \<Longrightarrow> is_digit (last b)"
proof -
  assume g: "digit_groups b"
  obtain w ws where sp: "str_split (of_char CHR ''_'') b = w # ws"
    using str_split_nonempty [of "(of_char CHR ''_'')" b] by (cases "str_split (of_char CHR ''_'') b") auto
  have "b \<noteq> []" using digit_groups_hd [OF g] by simp
  then show ?thesis
    using split_last_digit [OF sp] g sp by (simp add: digit_groups_def decimal_digits_alt)
qed

lemma strip_decomp:
  "\<exists>l r. s = l @ strip s @ r \<and> list_all is_space l \<and> list_all is_space r"
proof -
  let ?t = "dropWhile is_space s"
  let ?l = "takeWhile is_space s"
  let ?r = "rev (takeWhile is_space (rev ?t))"
  have "?t = rev (takeWhile is_space (rev ?t) @ dropWhile is_space (rev ?t))"
    by (simp only: takeWhile_dropWhile_id rev_rev_ident)
  then have "?t = strip s @ ?r"
    by (simp only: rev_append strip_def)
  then have "s = ?l @ strip s @ ?r"
    using takeWhile_dropWhile_id [of is_space s] by simp
  moreover have "list_all is_space ?l"
    by (simp add: list_all_iff) (meson set_takeWhileD)
  moreover have "list_all is_space ?r"
    by (simp add: list_all_iff) (meson set_takeWhileD)
  ultimately show ?thesis by blast
qed

lemma strip_unique:
  assumes "s = l @ t @ r" "list_all is_space l" "list_all is_space r"
    and "t \<noteq> []" "\<not> is_space (hd t)" "\<not> is_space (last t)"
  shows "strip s = t"
proof -
  have "dropWhile is_space (l @ t @ r) = dropWhile is_space (t @ r)"
    using assms(2) by (intro dropWhile_append2) (simp add: list_all_iff)
  then have "dropWhile is_space s = dropWhile is_space (t @ r)"
    using assms(1) by simp
  also have "\<dots> = t @ r"
    using assms(4,5) by (simp add: dropWhile_eq_self_iff)
  finally have a: "dropWhile is_space s = t @ r" .
  have "dropWhile is_space (rev r @ rev t) = dropWhile is_space (rev t)"
    using assms(3) by (intro dropWhile_append2) (simp add: list_all_iff)
  then have "dropWhile is_space (rev (t @ r)) = dropWhile is_space (rev t)"
    by simp
  also have "\<dots> = rev t"
    using assms(4,6) by (simp add: dropWhile_eq_self_iff hd_rev)
  finally show ?thesis using a by (simp add: strip_def)
qed

lemma signed_digit_groups_ends:
  assumes "signed_digit_groups t"
  shows "t \<noteq> [] \<and> \<not> is_space (hd t) \<and> \<not> is_space (last t)"
proof -
  from assms consider "digit_groups t"
    | b where "t = (of_char CHR ''+'') # b \<or> t = (of_char CHR ''-'') # b" "digit_groups b"
    by (auto simp: signed_digit_groups_def)
  then show ?thesis
  proof cases
    case 1
    then show ?thesis
      using digit_groups_hd [of t] digit_groups_last [of t] is_digit_not_space by blast
  next
    case 2
    then have "b \<noteq> []" "is_digit (last b)"
      using digit_groups_hd [of b] digit_groups_last [of b] by auto
    then show ?thesis
      using 2(1) is_digit_not_space [of "last b"] by (auto simp: is_space_def)
  qed
qed


lemma parse_limited_error: "parse_limited s = Inl e \<Longrightarrow> e = ValueError"
  by (auto simp: parse_limited_def parse_unsigned_def split: list.splits if_splits sum.splits
      dest: parse_digits_error)

lemma long_from_string_error: "long_from_string s = Inl e \<Longrightarrow> e = ValueError"
  by (auto simp: long_from_string_def map_sum_def split: list.splits if_splits sum.splits
      dest: parse_limited_error)

lemma py_int_error: "py_int s = Inl e \<Longrightarrow> e = ValueError"
  by (auto simp: py_int_def dest: long_from_string_error)

lemma parse_limited_groups:
  "(\<exists>v. parse_limited b = Inr v) \<longleftrightarrow>
     digit_groups b \<and> count_digits b \<le> int_max_str_digits"
  using parse_unsigned_groups [of b]
  by (cases "parse_unsigned b") (auto simp: parse_limited_def)

lemma long_from_string_literal:
  "(\<exists>v. long_from_string s = Inr v) \<longleftrightarrow>
     int_literal s \<and> count_digits s \<le> int_max_str_digits"
proof
  assume "\<exists>v. long_from_string s = Inr v"
  then obtain v where v: "long_from_string s = Inr v" ..
  obtain l r where dec: "s = l @ strip s @ r" "list_all is_space l" "list_all is_space r"
    using strip_decomp [of s] by blast
  have cnt: "count_digits s = count_digits (strip s)"
    using dec(2,3) count_digits_append [of l "strip s @ r"] count_digits_append [of "strip s" r]
    by (subst dec(1)) (simp add: count_digits_spaces)
  have "signed_digit_groups (strip s) \<and> count_digits (strip s) \<le> int_max_str_digits"
  proof (cases "strip s")
    case Nil
    then show ?thesis using v by (simp add: long_from_string_def)
  next
    case (Cons c cs)
    consider "c = of_char CHR ''-''" | "c = of_char CHR ''+''"
      | "c \<noteq> of_char CHR ''-''" "c \<noteq> of_char CHR ''+''" by blast
    then show ?thesis
    proof cases
      case 1
      then have "\<exists>u. parse_limited cs = Inr u"
        using v Cons by (cases "parse_limited cs") (auto simp: long_from_string_def)
      then have "digit_groups cs \<and> count_digits cs \<le> int_max_str_digits"
        by (simp add: parse_limited_groups)
      then show ?thesis
        using 1 Cons count_digits_sign(2) [of cs] by (auto simp: signed_digit_groups_def)
    next
      case 2
      then have "\<exists>u. parse_limited cs = Inr u"
        using v Cons by (auto simp: long_from_string_def)
      then have "digit_groups cs \<and> count_digits cs \<le> int_max_str_digits"
        by (simp add: parse_limited_groups)
      then show ?thesis
        using 2 Cons count_digits_sign(1) [of cs] by (auto simp: signed_digit_groups_def)
    next
      case 3
      then have "\<exists>u. parse_limited (c # cs) = Inr u"
        using v Cons by (auto simp: long_from_string_def)
      then have "digit_groups (c # cs) \<and> count_digits (c # cs) \<le> int_max_str_digits"
        by (simp add: parse_limited_groups)
      then show ?thesis
        using Cons by (auto simp: signed_digit_groups_def)
    qed
  qed
  then show "int_literal s \<and> count_digits s \<le> int_max_str_digits"
    using dec cnt unfolding int_literal_def by auto
next
  assume a: "int_literal s \<and> count_digits s \<le> int_max_str_digits"
  then obtain l t r where dec: "s = l @ t @ r" "list_all is_space l" "list_all is_space r"
    and sg: "signed_digit_groups t"
    unfolding int_literal_def by blast
  have st: "strip s = t"
    using strip_unique [OF dec] signed_digit_groups_ends [OF sg] by blast
  have "count_digits s = count_digits t"
    using dec(2,3) count_digits_append [of l "t @ r"] count_digits_append [of t r]
    by (subst dec(1)) (simp add: count_digits_spaces)
  then have cnt: "count_digits t \<le> int_max_str_digits" using a by simp
  from sg consider "digit_groups t"
    | b where "t = of_char CHR ''+'' # b" "digit_groups b"
    | b where "t = of_char CHR ''-'' # b" "digit_groups b"
    by (auto simp: signed_digit_groups_def)
  then show "\<exists>v. long_from_string s = Inr v"
  proof cases
    case 1
    then obtain c cs where t: "t = c # cs" and d: "is_digit c"
      using digit_groups_hd [of t] by (cases t) auto
    obtain v where "parse_limited t = Inr v"
      using 1 cnt parse_limited_groups [of t] by blast
    moreover have "c \<noteq> of_char CHR ''-''" "c \<noteq> of_char CHR ''+''"
      using d not_digit by blast+
    ultimately show ?thesis
      using st t by (simp add: long_from_string_def)
  next
    case 2
    have "count_digits b \<le> int_max_str_digits"
      using cnt 2(1) count_digits_sign(1) [of b] by simp
    then obtain v where "parse_limited b = Inr v"
      using 2 parse_limited_groups [of b] by blast
    then show ?thesis using st 2(1) by (simp add: long_from_string_def)
  next
    case 3
    have "count_digits b \<le> int_max_str_digits"
      using cnt 3(1) count_digits_sign(2) [of b] by simp
    then obtain v where "parse_limited b = Inr v"
      using 3 parse_limited_groups [of b] by blast
    then show ?thesis using st 3(1) by (simp add: long_from_string_def)
  qed
qed

lemma py_int_readable: "(\<exists>v. py_int s = Inr v) \<longleftrightarrow> int_readable s"
  by (simp add: py_int_def int_readable_def long_from_string_literal count_digits_decimal)

lemma map_raise_Inr:
  "(\<exists>ys. map_raise f xs = Inr ys) \<longleftrightarrow> (\<forall>x\<in>set xs. \<exists>y. f x = Inr y)"
  by (induction xs) (auto split: sum.splits)

lemma params_to_ints_error: "params_to_ints qs = Inl e \<Longrightarrow> e = ValueError"
  using map_raise_error [of py_int "str_split (of_char CHR '','') qs" e] py_int_error
  by (auto simp: params_to_ints_def)

section \<open>The identifiers of the ingredients filter\<close>

text \<open>
  Claim C1, as amended. For a string that is a comma-separated sequence of decimal integer
  numerals, such as \<^verbatim>\<open>3,17,42\<close>, each of no more digits than the interpreter's limit on
  the digits of a converted string, \<^verbatim>\<open>_params_to_ints\<close> returns the integers of the
  numerals, in the order of the string, one for each segment. The string is the join by
  commas of a non-empty list of numerals.
\<close>

theorem params_to_ints_numerals:
  assumes "segs \<noteq> []"
    and "\<forall>s\<in>set segs. decimal_numeral s \<and> length (numeral_digits s) \<le> int_max_str_digits"
  shows "params_to_ints (str_join (of_char CHR '','') segs) = Inr (map numeral_value segs)"
proof -
  have "\<forall>w\<in>set segs. of_char CHR '','' \<notin> set w"
    using assms(2) numeral_no_comma by blast
  then have "str_split (of_char CHR '','') (str_join (of_char CHR '','') segs) = segs"
    using assms(1) by (rule str_split_join [rotated])
  moreover have "\<forall>s\<in>set segs. py_int s = Inr (numeral_value s)"
    using assms(2) by (simp add: py_int_numeral)
  ultimately show ?thesis
    by (simp add: params_to_ints_def map_raise_all)
qed

theorem params_to_ints_numerals_witness:
  "decimal_numeral (ascii ''3'') \<and> decimal_numeral (ascii ''17'') \<and> decimal_numeral (ascii ''42'')
   \<and> decimal_numeral (ascii ''-9876543210'')
   \<and> str_join (of_char CHR '','') [ascii ''3'', ascii ''17'', ascii ''42'', ascii ''-9876543210'']
       = ascii ''3,17,42,-9876543210''
   \<and> params_to_ints (ascii ''3,17,42,-9876543210'') = Inr [3, 17, 42, - 9876543210]"
proof -
  let ?segs = "[ascii ''3'', ascii ''17'', ascii ''42'', ascii ''-9876543210'']"
  have h: "\<forall>s\<in>set ?segs. decimal_numeral s \<and> length (numeral_digits s) \<le> int_max_str_digits"
    by (simp add: decimal_numeral_def numeral_digits_def decimal_digits_def decimal_digit_def
        ascii_def int_max_str_digits_def)
  have j: "str_join (of_char CHR '','') ?segs = ascii ''3,17,42,-9876543210''"
    by (simp add: ascii_def)
  have v: "map numeral_value ?segs = [3, 17, 42, - 9876543210]"
    by (simp add: numeral_value_def digits_value_def decimal_digit_value_def ascii_def)
  have "params_to_ints (str_join (of_char CHR '','') ?segs) = Inr (map numeral_value ?segs)"
    using params_to_ints_numerals [of ?segs] h by blast
  then have "params_to_ints (ascii ''3,17,42,-9876543210'') = Inr [3, 17, 42, - 9876543210]"
    by (simp only: j v)
  then show ?thesis using h j by simp
qed

text \<open>
  The claim as it was stated fails at a numeral of more digits than the limit: for the
  numeral of 4301 ones the function raises \<^verbatim>\<open>ValueError\<close>.
\<close>

theorem params_to_ints_long_numeral_counterexample:
  "decimal_numeral (replicate 4301 (of_char CHR ''1''))
   \<and> str_join (of_char CHR '','') [replicate 4301 (of_char CHR ''1'')]
       = replicate 4301 (of_char CHR ''1'')
   \<and> params_to_ints (replicate 4301 (of_char CHR ''1'')) = Inl ValueError"
proof -
  let ?s = "replicate 4301 (of_char CHR ''1'') :: str"
  have "replicate (Suc 4300) (of_char CHR ''1'' :: nat) = of_char CHR ''1'' # replicate 4300 (of_char CHR ''1'')"
    by (rule replicate_Suc)
  then have c: "?s = of_char CHR ''1'' # replicate 4300 (of_char CHR ''1'')"
    by simp
  have d: "numeral_digits ?s = ?s"
    unfolding c by (simp add: numeral_digits_def)
  have n: "decimal_numeral ?s"
    unfolding decimal_numeral_def d
    by (simp add: decimal_digits_alt list_all_iff is_digit_range)
  have "py_int ?s = Inl ValueError"
    using py_int_numeral [OF n] d by (simp add: int_max_str_digits_def)
  moreover have "str_split (of_char CHR '','') ?s = [?s]"
    by (intro str_split_no_sep) simp
  ultimately have "params_to_ints ?s = Inl ValueError"
    by (simp add: params_to_ints_def)
  then show ?thesis using n by simp
qed

text \<open>
  Claim C2, as amended. A string with a comma-separated segment that \<^verbatim>\<open>int\<close> does not read
  makes \<^verbatim>\<open>_params_to_ints\<close> raise \<^verbatim>\<open>ValueError\<close>, and no other string does. \<^verbatim>\<open>int\<close> reads a
  segment that, with each Unicode white space taken for a blank and each Unicode decimal
  digit for the ASCII digit of its value, is an optional sign and groups of decimal digits
  joined by single underscores, between any white space, of no more digits than the
  limit. Nothing checks the parameter before the conversion, so \<^verbatim>\<open>get_queryset\<close> raises
  the same error for a non-empty parameter with such a segment.
\<close>

theorem params_to_ints_raises:
  "(params_to_ints qs = Inl ValueError \<longleftrightarrow>
      (\<exists>seg\<in>set (str_split (of_char CHR '','') qs). \<not> int_readable seg))
   \<and> (\<forall>db (request :: 'p request).
         query_params request ''ingredients'' = Some qs \<and> qs \<noteq> [] \<and>
         (\<exists>seg\<in>set (str_split (of_char CHR '','') qs). \<not> int_readable seg)
         \<longrightarrow> recipe_get_queryset db request = Inl ValueError)"
proof -
  have "params_to_ints qs = Inl ValueError \<longleftrightarrow> \<not> (\<exists>ys. params_to_ints qs = Inr ys)"
    using params_to_ints_error [of qs] by (cases "params_to_ints qs") auto
  also have "\<dots> \<longleftrightarrow>
      \<not> (\<forall>seg\<in>set (str_split (of_char CHR '','') qs). \<exists>v. py_int seg = Inr v)"
    by (simp only: params_to_ints_def map_raise_Inr)
  also have "\<dots> \<longleftrightarrow> (\<exists>seg\<in>set (str_split (of_char CHR '','') qs). \<not> int_readable seg)"
    by (simp add: py_int_readable)
  finally have raises: "params_to_ints qs = Inl ValueError \<longleftrightarrow>
      (\<exists>seg\<in>set (str_split (of_char CHR '','') qs). \<not> int_readable seg)" .
  then show ?thesis
    by (auto simp: recipe_get_queryset_def)
qed

lemmas int_defs = params_to_ints_def py_int_def decimal_and_space_to_ascii_def
  long_from_string_def parse_limited_def count_digits_def int_max_str_digits_def strip_def
  is_space_def parse_unsigned_def is_digit_range digit_val_def ascii_def unicode_space_def
  unicode_decimal_def decimal_digit_blocks_def

theorem params_to_ints_raises_witness:
  "params_to_ints (ascii ''1,abc'') = Inl ValueError
   \<and> (\<exists>seg\<in>set (str_split (of_char CHR '','') (ascii ''1,abc'')). \<not> int_readable seg)
   \<and> recipe_get_queryset sample_db (sample_request (Some (ascii ''1,abc'')) (NotImage []))
       = Inl ValueError"
proof -
  have e: "params_to_ints (ascii ''1,abc'') = Inl ValueError"
    by (simp add: int_defs)
  then have s: "\<exists>seg\<in>set (str_split (of_char CHR '','') (ascii ''1,abc'')). \<not> int_readable seg"
    using params_to_ints_raises [of "ascii ''1,abc''"] by blast
  have "query_params (sample_request (Some (ascii ''1,abc'')) (NotImage [])) ''ingredients''
          = Some (ascii ''1,abc'')"
    by (simp add: sample_request_def)
  moreover have "ascii ''1,abc'' \<noteq> []"
    by (simp add: ascii_def)
  ultimately have "recipe_get_queryset sample_db
      (sample_request (Some (ascii ''1,abc'')) (NotImage [])) = Inl ValueError"
    using params_to_ints_raises [of "ascii ''1,abc''"] s by blast
  with e s show ?thesis by (intro conjI)
qed

text \<open>
  The claim as it was stated fails: a segment with a blank before its digits is no decimal
  integer numeral, and the function returns a value for it.
\<close>

theorem params_to_ints_blank_counterexample:
  "ascii '' 2'' \<in> set (str_split (of_char CHR '','') (ascii ''1, 2''))
   \<and> \<not> decimal_numeral (ascii '' 2'')
   \<and> params_to_ints (ascii ''1, 2'') = Inr [1, 2]"
  by (simp add: int_defs decimal_numeral_def numeral_digits_def decimal_digits_def
      decimal_digit_def)

text \<open>
  So do a plus sign, an underscore between digits, and the white space and the decimal
  digits of other scripts: the Arabic-Indic digit three before the comma, the ideographic
  space at the end.
\<close>

lemma params_to_ints_lenient:
  "\<not> decimal_numeral (ascii ''+2'') \<and> params_to_ints (ascii ''1,+2'') = Inr [1, 2]
   \<and> \<not> decimal_numeral (ascii ''1_0'') \<and> params_to_ints (ascii ''1_0'') = Inr [10]
   \<and> \<not> decimal_numeral [0x663]
   \<and> params_to_ints ([0x663] @ ascii '',17'' @ [0x3000]) = Inr [3, 17]"
  by (simp add: int_defs decimal_numeral_def numeral_digits_def decimal_digits_def
      decimal_digit_def)


section \<open>The querysets of the viewsets\<close>

lemma set_order_by_desc: "set (order_by_desc key qs) = set qs"
  by (simp add: order_by_desc_def)

lemma sorted_order_by_desc: "sorted_wrt (\<lambda>a b. key b \<le> key a) (order_by_desc key qs)"
proof -
  have "sorted (map key (sort_key key (rev qs)))" by simp
  then have "sorted_wrt (\<lambda>a b. key a \<le> key b) (sort_key key (rev qs))"
    by (simp only: sorted_map)
  then show ?thesis
    by (simp add: order_by_desc_def sorted_wrt_rev)
qed

lemma sorted_wrt_remdups: "sorted_wrt P xs \<Longrightarrow> sorted_wrt P (remdups xs)"
  by (induction xs) auto

lemma set_filter_ingredients_id_in:
  "set (filter_ingredients_id_in db ids qs) =
     {r \<in> set qs. \<exists>i\<in>set ids. (recipe_id r, i) \<in> set (recipe_ingredients db)}"
  by (force simp: filter_ingredients_id_in_def)

lemma recipe_get_queryset_set:
  assumes "recipe_get_queryset db request = Inr qs"
  shows "set qs \<subseteq> {r \<in> set (recipes db). recipe_user r = req_user request}"
  using assms
  by (auto simp: recipe_get_queryset_def Let_def qs_distinct_def set_order_by_desc
      set_filter_ingredients_id_in split: option.splits if_splits sum.splits)

text \<open>The views on the sample data.\<close>

lemmas sample_defs = recipe_get_queryset_def sample_db_def sample_request_def create_recipe_def
  int_defs filter_ingredients_id_in_def order_by_desc_def qs_distinct_def

lemma sample_filtered:
  "recipe_get_queryset sample_db (sample_request (Some (ascii ''1,2'')) data)
     = Inr [create_recipe 2 1 ''Curry'', create_recipe 1 1 ''Pasta'']"
  by (simp add: sample_defs)

lemma sample_all:
  "recipe_get_queryset sample_db (sample_request None data)
     = Inr [create_recipe 3 1 ''Soup'', create_recipe 2 1 ''Curry'', create_recipe 1 1 ''Pasta'']"
  by (simp add: sample_defs)

lemma sample_object:
  "get_object sample_db (sample_request None data) 1 = Inr (create_recipe 1 1 ''Pasta'')"
  by (simp add: get_object_def sample_all) (simp add: create_recipe_def)

lemma sample_no_object:
  "get_object sample_db (sample_request None data) 4 = Inl Http404"
  by (simp add: get_object_def sample_all) (simp add: create_recipe_def)

text \<open>
  Claim C3. The queryset of the recipe viewset and the queryset of the ingredient viewset
  hold only rows whose user is the requesting user; so does the row that the detail
  lookup finds. A row of another user is in no list and no detail response.
\<close>

theorem querysets_owner_scoped:
  "(\<forall>qs. recipe_get_queryset db request = Inr qs \<longrightarrow>
      (\<forall>r\<in>set qs. recipe_user r = req_user request))
   \<and> (\<forall>i\<in>set (ingredient_get_queryset db request). ingredient_user i = req_user request)
   \<and> (\<forall>pk r. get_object db request pk = Inr r \<longrightarrow> recipe_user r = req_user request)"
proof (intro conjI allI impI)
  fix qs assume "recipe_get_queryset db request = Inr qs"
  then show "\<forall>r\<in>set qs. recipe_user r = req_user request"
    using recipe_get_queryset_set by blast
next
  show "\<forall>i\<in>set (ingredient_get_queryset db request). ingredient_user i = req_user request"
    by (simp add: ingredient_get_queryset_def set_order_by_desc)
next
  fix pk r assume g: "get_object db request pk = Inr r"
  then obtain qs where qs: "recipe_get_queryset db request = Inr qs"
    and f: "filter (\<lambda>r. recipe_id r = pk) qs = [r]"
    by (auto simp: get_object_def split: sum.splits list.splits)
  have "r \<in> set (filter (\<lambda>r. recipe_id r = pk) qs)" using f by simp
  then have "r \<in> set qs" by simp
  then show "recipe_user r = req_user request"
    using recipe_get_queryset_set [OF qs] by blast
qed

theorem querysets_owner_scoped_witness:
  "recipe_get_queryset sample_db (sample_request None (NotImage []))
     = Inr [create_recipe 3 1 ''Soup'', create_recipe 2 1 ''Curry'', create_recipe 1 1 ''Pasta'']
   \<and> list_all (\<lambda>r. recipe_user r = 1) [create_recipe 3 1 ''Soup'', create_recipe 2 1 ''Curry'', create_recipe 1 1 ''Pasta'']
   \<and> create_recipe 4 2 ''Sample recipe'' \<in> set (recipes sample_db)
   \<and> get_object sample_db (sample_request None (NotImage [])) 1 = Inr (create_recipe 1 1 ''Pasta'')
   \<and> get_object sample_db (sample_request None (NotImage [])) 4 = Inl Http404"
proof -
  let ?rq = "sample_request None (NotImage [])"
  have "\<forall>r\<in>set [create_recipe 3 1 ''Soup'', create_recipe 2 1 ''Curry'', create_recipe 1 1 ''Pasta''].
          recipe_user r = req_user ?rq"
    using querysets_owner_scoped [of sample_db ?rq] sample_all [of "NotImage []"] by blast
  then have "list_all (\<lambda>r. recipe_user r = 1)
     [create_recipe 3 1 ''Soup'', create_recipe 2 1 ''Curry'', create_recipe 1 1 ''Pasta'']"
    by (simp add: sample_request_def)
  moreover have "create_recipe 4 2 ''Sample recipe'' \<in> set (recipes sample_db)"
    by (simp add: sample_db_def)
  ultimately show ?thesis
    using sample_all [of "NotImage []"] sample_object [of "NotImage []"]
      sample_no_object [of "NotImage []"] by (intro conjI)
qed

text \<open>
  Claim C4. When the list request has a non-empty \<^verbatim>\<open>ingredients\<close> parameter that parses
  to the ids \<open>L\<close>, the recipes returned are exactly the recipes of the requesting user
  with at least one ingredient whose id is in \<open>L\<close>.
\<close>

theorem filter_by_ingredients:
  assumes "query_params request ''ingredients'' = Some s" and "s \<noteq> []"
    and "params_to_ints s = Inr L"
  shows "\<exists>qs. recipe_get_queryset db request = Inr qs \<and>
           set qs = {r \<in> set (recipes db). recipe_user r = req_user request \<and>
                      (\<exists>i\<in>set L. (recipe_id r, i) \<in> set (recipe_ingredients db))}"
  using assms
  by (auto simp: recipe_get_queryset_def Let_def qs_distinct_def set_order_by_desc
      set_filter_ingredients_id_in)

theorem filter_by_ingredients_witness:
  "params_to_ints (ascii ''1,2'') = Inr [1, 2]
   \<and> (\<exists>qs. recipe_get_queryset sample_db (sample_request (Some (ascii ''1,2'')) (NotImage [])) = Inr qs
         \<and> set qs = {create_recipe 1 1 ''Pasta'', create_recipe 2 1 ''Curry''})"
proof -
  let ?rq = "sample_request (Some (ascii ''1,2'')) (NotImage [])"
  have p: "params_to_ints (ascii ''1,2'') = Inr [1, 2]"
    by (simp add: sample_defs)
  have q: "query_params ?rq ''ingredients'' = Some (ascii ''1,2'')"
    by (simp add: sample_request_def)
  have ne: "ascii ''1,2'' \<noteq> []"
    by (simp add: ascii_def)
  obtain qs where qs: "recipe_get_queryset sample_db ?rq = Inr qs"
    using filter_by_ingredients [OF q ne p, of sample_db] by auto
  then have "qs = [create_recipe 2 1 ''Curry'', create_recipe 1 1 ''Pasta'']"
    using sample_filtered [of "NotImage []"] by simp
  then have "set qs = {create_recipe 1 1 ''Pasta'', create_recipe 2 1 ''Curry''}"
    by auto
  with p qs show ?thesis by blast
qed

text \<open>
  Claim C10. A list response has each recipe at most once, also a recipe that has several
  of the requested ingredients, and its recipes come by descending id. No row is repeated;
  where the ids of the stored recipes are unique, as a primary key is, no id is repeated.
\<close>

theorem recipe_list_distinct_sorted:
  assumes "recipe_get_queryset db request = Inr qs"
  shows "distinct qs \<and> sorted_wrt (\<lambda>a b. recipe_id b \<le> recipe_id a) qs
         \<and> (distinct (map recipe_id (recipes db)) \<longrightarrow> distinct (map recipe_id qs))"
proof -
  obtain rows where qs: "qs = qs_distinct (order_by_desc recipe_id rows)"
    using assms
    by (auto simp: recipe_get_queryset_def Let_def split: option.splits if_splits sum.splits)
  have d: "distinct qs" using qs by (simp add: qs_distinct_def)
  have s: "sorted_wrt (\<lambda>a b. recipe_id b \<le> recipe_id a) qs"
    using qs sorted_order_by_desc [of recipe_id rows]
    by (simp add: qs_distinct_def sorted_wrt_remdups)
  have "distinct (map recipe_id qs)" if pk: "distinct (map recipe_id (recipes db))"
  proof -
    have "inj_on recipe_id (set (recipes db))"
      using pk by (simp add: distinct_map)
    moreover have "set qs \<subseteq> set (recipes db)"
      using recipe_get_queryset_set [OF assms] by blast
    ultimately have "inj_on recipe_id (set qs)"
      by (rule inj_on_subset)
    then show ?thesis using d by (simp add: distinct_map)
  qed
  then show ?thesis using d s by blast
qed

theorem recipe_list_distinct_sorted_witness:
  "recipe_get_queryset sample_db (sample_request (Some (ascii ''1,2'')) (NotImage []))
     = Inr [create_recipe 2 1 ''Curry'', create_recipe 1 1 ''Pasta'']
   \<and> (1, 1) \<in> set (recipe_ingredients sample_db) \<and> (1, 2) \<in> set (recipe_ingredients sample_db)
   \<and> distinct [create_recipe 2 1 ''Curry'', create_recipe 1 1 ''Pasta'']
   \<and> sorted_wrt (\<lambda>a b. recipe_id b \<le> recipe_id a)
        [create_recipe 2 1 ''Curry'', create_recipe 1 1 ''Pasta'']"
proof -
  have "(1, 1) \<in> set (recipe_ingredients sample_db) \<and> (1, 2) \<in> set (recipe_ingredients sample_db)"
    by (simp add: sample_db_def)
  then show ?thesis
    using recipe_list_distinct_sorted [OF sample_filtered [of "NotImage []"]]
      sample_filtered [of "NotImage []"] by blast
qed

section \<open>The upload of an image\<close>

text \<open>
  Claim C9. For the recipe that the lookup of the action finds, \<^verbatim>\<open>upload_image\<close> answers
  200 with the serialized saved recipe exactly when the submitted data passes the
  validation, and 400 with the serializer's errors exactly when it fails; the store
  changes, by the serializer's save, only with the answer 200. When the lookup raises, the
  action raises the same exception and neither validates nor saves.
\<close>

theorem upload_image_responses:
  "(\<forall>recipe. get_object db request pk = Inr recipe \<longrightarrow>
      (\<exists>db' resp. upload_image ser db request pk = Inr (db', resp)
         \<and> (status_code resp = 200 \<longleftrightarrow> (\<exists>v. run_validation ser (req_data request) = Inr v))
         \<and> (status_code resp = 400 \<longleftrightarrow> (\<exists>e. run_validation ser (req_data request) = Inl e))
         \<and> (\<forall>v. run_validation ser (req_data request) = Inr v \<longrightarrow>
               db' = fst (save_instance ser db recipe v) \<and>
               response_data resp
                 = Inr (to_representation ser (snd (save_instance ser db recipe v))))
         \<and> (\<forall>e. run_validation ser (req_data request) = Inl e \<longrightarrow>
               db' = db \<and> response_data resp = Inl e)))
   \<and> (\<forall>e. get_object db request pk = Inl e \<longrightarrow> upload_image ser db request pk = Inl e)"
  by (cases "run_validation ser (req_data request)")
    (auto simp: upload_image_def HTTP_200_OK_def HTTP_400_BAD_REQUEST_def split: prod.splits)

theorem upload_image_responses_witness:
  "get_object sample_db (sample_request None (ImageFile ''example.jpg'')) 1
     = Inr (create_recipe 1 1 ''Pasta'')
   \<and> (\<exists>db' resp. upload_image sample_serializer sample_db
          (sample_request None (ImageFile ''example.jpg'')) 1 = Inr (db', resp)
        \<and> status_code resp = 200
        \<and> response_data resp = Inr (1, Some ''uploads/recipe/test-uuid.jpg''))
   \<and> (\<exists>resp. upload_image sample_serializer sample_db
          (sample_request None (NotImage ''notimage'')) 1 = Inr (sample_db, resp)
        \<and> status_code resp = 400)"
proof -
  let ?ok = "sample_request None (ImageFile ''example.jpg'')"
  let ?bad = "sample_request None (NotImage ''notimage'')"
  have v: "run_validation sample_serializer (req_data ?ok) = Inr ''example.jpg''"
    by (simp add: sample_serializer_def sample_request_def)
  have e: "run_validation sample_serializer (req_data ?bad) = Inl ''Upload a valid image.''"
    by (simp add: sample_serializer_def sample_request_def)
  have r: "to_representation sample_serializer
             (snd (save_instance sample_serializer sample_db (create_recipe 1 1 ''Pasta'') ''example.jpg''))
           = (1, Some ''uploads/recipe/test-uuid.jpg'')"
    by code_simp
  obtain db' resp where
    "upload_image sample_serializer sample_db ?ok 1 = Inr (db', resp)"
    "status_code resp = 200"
    "response_data resp = Inr (1, Some ''uploads/recipe/test-uuid.jpg'')"
    using upload_image_responses [of sample_db ?ok 1 sample_serializer]
      sample_object [of "ImageFile ''example.jpg''"] v r by auto
  moreover obtain db'' resp' where
    "upload_image sample_serializer sample_db ?bad 1 = Inr (db'', resp')"
    "status_code resp' = 400" "db'' = sample_db"
    using upload_image_responses [of sample_db ?bad 1 sample_serializer]
      sample_object [of "NotImage ''notimage''"] e by auto
  ultimately show ?thesis
    using sample_object [of "ImageFile ''example.jpg''"] by blast
qed

text \<open>
  The lookup comes first: for the recipe of another user the action raises \<^verbatim>\<open>Http404\<close>,
  whatever the data.
\<close>

lemma upload_image_not_found:
  "run_validation sample_serializer (req_data (sample_request None (ImageFile ''example.jpg'')))
     = Inr ''example.jpg''
   \<and> upload_image sample_serializer sample_db (sample_request None (ImageFile ''example.jpg'')) 4
     = Inl Http404"
  using sample_no_object [of "ImageFile ''example.jpg''"]
  by (simp add: upload_image_def) (simp add: sample_serializer_def sample_request_def)

section \<open>The user manager\<close>

lemma rsplit_last_append:
  "sep \<notin> set d \<Longrightarrow> rsplit_last sep (l @ sep # d) = Some (l, d)"
proof -
  assume a: "sep \<notin> set d"
  have "takeWhile (\<lambda>c. c \<noteq> sep) (rev d @ sep # rev l)
          = rev d @ takeWhile (\<lambda>c. c \<noteq> sep) (sep # rev l)"
    using a by (intro takeWhile_append2) auto
  then have t: "takeWhile (\<lambda>c. c \<noteq> sep) (rev d @ sep # rev l) = rev d"
    by simp
  have "dropWhile (\<lambda>c. c \<noteq> sep) (rev d @ sep # rev l) = dropWhile (\<lambda>c. c \<noteq> sep) (sep # rev l)"
    using a by (intro dropWhile_append2) auto
  then have "dropWhile (\<lambda>c. c \<noteq> sep) (rev d @ sep # rev l) = sep # rev l"
    by simp
  then show ?thesis using t by (simp add: rsplit_last_def)
qed


lemma normalize_email_nonempty: "email \<noteq> [] \<Longrightarrow> normalize_email email \<noteq> []"
  by (auto simp: normalize_email_def split: option.splits)



text \<open>
  Claim C7. User creation with the empty email raises \<^verbatim>\<open>ValueError\<close> and creates no
  user; no user that it returns has an empty email.
\<close>

theorem create_user_empty_email:
  "create_user make_password us [] password = Inl ValueError
   \<and> (\<forall>email u us'. create_user make_password us email password = Inr (u, us')
         \<longrightarrow> user_email u \<noteq> [])"
  by (auto simp: create_user_def Let_def split: if_splits dest: normalize_email_nonempty)

theorem create_user_empty_email_witness:
  "create_user id [] [] ''test123'' = Inl ValueError
   \<and> create_user id [] ''Test2@Example.com'' ''sample123'' = Inr (sample_user, [sample_user])
   \<and> user_email sample_user \<noteq> []"
proof -
  have e: "create_user id [] ''Test2@Example.com'' ''sample123''
             = Inr (sample_user, [sample_user])"
    by code_simp
  then show ?thesis
    using create_user_empty_email [of id "[]" "''sample123''"]
      create_user_empty_email [of id "[]" "''test123''"] by blast
qed

section \<open>The path of an uploaded image\<close>

lemma basename_append:
  "CHR ''/'' \<notin> set e \<Longrightarrow> basename (s @ CHR ''.'' # e) = basename s @ CHR ''.'' # e"
proof -
  assume a: "CHR ''/'' \<notin> set e"
  have "takeWhile (\<lambda>c. c \<noteq> CHR ''/'') (rev e @ CHR ''.'' # rev s)
          = rev e @ takeWhile (\<lambda>c. c \<noteq> CHR ''/'') (CHR ''.'' # rev s)"
    using a by (intro takeWhile_append2) auto
  then show ?thesis by (simp add: basename_def)
qed

text \<open>
  Claim C8. For a file name with the extension \<open>ext\<close>, \<^verbatim>\<open>recipe_image_file_path\<close>
  returns \<^verbatim>\<open>uploads/recipe/<uuid>.<ext>\<close>, where \<^verbatim>\<open><uuid>\<close> is the value of the UUID
  generator: of the file name only the extension shows in the result, and of the instance
  nothing.
\<close>

theorem recipe_image_file_path_form:
  assumes "CHR ''.'' \<notin> set ext" and "CHR ''/'' \<notin> set ext"
    and "\<exists>c\<in>set (basename stem). c \<noteq> CHR ''.''"
  shows "recipe_image_file_path uuid4 instance (stem @ CHR ''.'' # ext)
           = ''uploads/recipe/'' @ uuid4 @ CHR ''.'' # ext"
  using assms
  by (auto simp: recipe_image_file_path_def file_extension_def basename_append
      rsplit_last_append list_all_iff)

theorem recipe_image_file_path_form_witness:
  "recipe_image_file_path ''test-uuid'' () ''example.jpg'' = ''uploads/recipe/test-uuid.jpg''"
proof -
  have "\<exists>c\<in>set (basename ''example''). c \<noteq> CHR ''.''"
    by (simp add: basename_def)
  then show ?thesis
    using recipe_image_file_path_form [of "''jpg''" "''example''" "''test-uuid''" "()"] by simp
qed

section \<open>The partial update of the ingredients\<close>

lemma next_id_fresh: "next_id ids \<notin> set ids"
proof
  assume "next_id ids \<in> set ids"
  then have "next_id ids \<le> Max (set (0 # ids))" by simp
  then show False by (simp add: next_id_def Max.set_eq_fold [symmetric] del: set_simps)
qed

lemma recipe_has_clear: "recipe_has (clear_ingredients db rid) rid = {}"
  by (auto simp: recipe_has_def clear_ingredients_def)

lemma ingredients_clear: "ingredients (clear_ingredients db rid) = ingredients db"
  by (simp add: clear_ingredients_def)

lemma attach_step_has:
  assumes d: "distinct (map ingredient_id (ingredients db))"
  shows "distinct (map ingredient_id (ingredients (attach_step db uid rid nm)))
    \<and> (\<exists>i. ingredient_user i = uid \<and> ingredient_name i = nm \<and>
          recipe_has (attach_step db uid rid nm) rid = insert i (recipe_has db rid))"
proof (cases "filter (\<lambda>i. ingredient_user i = uid \<and> ingredient_name i = nm) (ingredients db)")
  case Nil
  let ?new = "next_id (map ingredient_id (ingredients db))"
  let ?i = "\<lparr>ingredient_id = ?new, ingredient_user = uid, ingredient_name = nm\<rparr>"
  have fresh: "\<forall>x\<in>set (ingredients db). ingredient_id x \<noteq> ?new"
  proof
    fix x assume "x \<in> set (ingredients db)"
    then have "ingredient_id x \<in> set (map ingredient_id (ingredients db))" by simp
    moreover have "?new \<notin> set (map ingredient_id (ingredients db))"
      by (rule next_id_fresh)
    ultimately show "ingredient_id x \<noteq> ?new" by metis
  qed
  have "recipe_has (attach_step db uid rid nm) rid = insert ?i (recipe_has db rid)"
    using Nil fresh
    by (auto simp: attach_step_def get_or_create_ingredient_def add_ingredient_def
        recipe_has_def Let_def)
  moreover have "distinct (map ingredient_id (ingredients (attach_step db uid rid nm)))"
    using Nil fresh d
    by (auto simp: attach_step_def get_or_create_ingredient_def add_ingredient_def Let_def)
  ultimately show ?thesis by (intro conjI exI [of _ ?i]) simp_all
next
  case (Cons i0 rest)
  then have "i0 \<in> set (filter (\<lambda>i. ingredient_user i = uid \<and> ingredient_name i = nm) (ingredients db))"
    by simp
  then have i0: "i0 \<in> set (ingredients db)" "ingredient_user i0 = uid" "ingredient_name i0 = nm"
    by simp_all
  have uniq: "i = i0" if "i \<in> set (ingredients db)" "ingredient_id i = ingredient_id i0" for i
    using d that i0(1) by (meson distinct_map inj_onD)
  have "recipe_has (attach_step db uid rid nm) rid = insert i0 (recipe_has db rid)"
    using Cons i0(1) uniq
    by (auto simp: attach_step_def get_or_create_ingredient_def add_ingredient_def
        recipe_has_def)
  moreover have "distinct (map ingredient_id (ingredients (attach_step db uid rid nm)))"
    using Cons d
    by (auto simp: attach_step_def get_or_create_ingredient_def add_ingredient_def)
  ultimately show ?thesis using i0 by blast
qed

lemma attach_ingredients_step:
  "attach_ingredients db uid rid (nm # nms) = attach_ingredients (attach_step db uid rid nm) uid rid nms"
  by (simp add: attach_step_def split: prod.splits)

lemma attach_ingredients_has:
  assumes "distinct (map ingredient_id (ingredients db))"
  shows "ingredient_name ` recipe_has (attach_ingredients db uid rid nms) rid
           = ingredient_name ` recipe_has db rid \<union> set nms
         \<and> (\<forall>i\<in>recipe_has (attach_ingredients db uid rid nms) rid.
               i \<in> recipe_has db rid \<or> ingredient_user i = uid)"
  using assms
proof (induction nms arbitrary: db)
  case Nil
  then show ?case by simp
next
  case (Cons nm nms)
  let ?db = "attach_step db uid rid nm"
  obtain i where i: "ingredient_user i = uid" "ingredient_name i = nm"
      "recipe_has ?db rid = insert i (recipe_has db rid)"
    and d: "distinct (map ingredient_id (ingredients ?db))"
    using attach_step_has [OF Cons.prems, of uid rid nm] by blast
  have IH: "ingredient_name ` recipe_has (attach_ingredients ?db uid rid nms) rid
           = ingredient_name ` recipe_has ?db rid \<union> set nms
         \<and> (\<forall>i\<in>recipe_has (attach_ingredients ?db uid rid nms) rid.
               i \<in> recipe_has ?db rid \<or> ingredient_user i = uid)"
    using Cons.IH [OF d] .
  show ?case
    unfolding attach_ingredients_step using IH i by auto
qed

text \<open>
  Claim C5. After a partial update whose payload has an ingredients list, the names of the
  recipe's ingredients are exactly the names of the payload, each an ingredient of the
  requesting user: an ingredient that was attached and is not named is detached, and the
  empty list leaves the recipe without ingredients. The ids of the stored ingredients are
  unique, as a primary key is.
\<close>

theorem update_ingredients_replaces:
  assumes "distinct (map ingredient_id (ingredients db))"
  shows "ingredient_name ` recipe_has (update_ingredients db uid rid (Some names)) rid = set names
     \<and> (\<forall>i\<in>recipe_has db rid. ingredient_name i \<notin> set names \<longrightarrow>
           i \<notin> recipe_has (update_ingredients db uid rid (Some names)) rid)
     \<and> (\<forall>i\<in>recipe_has (update_ingredients db uid rid (Some names)) rid. ingredient_user i = uid)
     \<and> recipe_has (update_ingredients db uid rid (Some [])) rid = {}"
proof -
  let ?c = "clear_ingredients db rid"
  have d: "distinct (map ingredient_id (ingredients ?c))"
    using assms by (simp add: ingredients_clear)
  have h: "ingredient_name ` recipe_has (attach_ingredients ?c uid rid names) rid = set names"
    and o: "\<forall>i\<in>recipe_has (attach_ingredients ?c uid rid names) rid. ingredient_user i = uid"
    using attach_ingredients_has [OF d, of uid rid names] by (auto simp: recipe_has_clear)
  have "\<forall>i\<in>recipe_has db rid. ingredient_name i \<notin> set names \<longrightarrow>
           i \<notin> recipe_has (attach_ingredients ?c uid rid names) rid"
    using h by blast
  then show ?thesis
    using h o by (simp add: update_ingredients_def recipe_has_clear)
qed

theorem update_ingredients_replaces_witness:
  "distinct (map ingredient_id (ingredients sample_db))
   \<and> ingredient_name `
        recipe_has (update_ingredients sample_db 1 1 (Some [''Ginger'', ''Limes''])) 1
       = {''Ginger'', ''Limes''}
   \<and> \<lparr>ingredient_id = 1, ingredient_user = 1, ingredient_name = ''Tomato''\<rparr>
        \<in> recipe_has sample_db 1
   \<and> \<lparr>ingredient_id = 1, ingredient_user = 1, ingredient_name = ''Tomato''\<rparr>
        \<notin> recipe_has (update_ingredients sample_db 1 1 (Some [''Ginger'', ''Limes''])) 1"
proof -
  let ?tomato = "\<lparr>ingredient_id = 1, ingredient_user = 1, ingredient_name = ''Tomato''\<rparr>"
  have d: "distinct (map ingredient_id (ingredients sample_db))"
    by (simp add: sample_db_def)
  have t: "?tomato \<in> recipe_has sample_db 1"
    by (simp add: recipe_has_def sample_db_def)
  have n: "ingredient_name ?tomato \<notin> set [''Ginger'', ''Limes'']"
    by simp
  note r = update_ingredients_replaces [OF d, of 1 1 "[''Ginger'', ''Limes'']"]
  have "ingredient_name `
        recipe_has (update_ingredients sample_db 1 1 (Some [''Ginger'', ''Limes''])) 1
       = {''Ginger'', ''Limes''}"
    using r by simp
  moreover have "?tomato \<notin> recipe_has (update_ingredients sample_db 1 1 (Some [''Ginger'', ''Limes''])) 1"
    using r t n by blast
  ultimately show ?thesis using d t by (intro conjI)
qed

end
